theory Spec2Isabelle
  imports Complex_Main
begin

section \<open>Python values used by both scripts\<close>

text \<open>
  Strings are lists of characters, one \<^typ>\<open>char\<close> standing for one code point of a
  Python \<open>str\<close>; the messages modelled here are ASCII. Python's \<open>int\<close> is \<^typ>\<open>int\<close>.
\<close>

definition digit_char :: "nat \<Rightarrow> char" where
  "digit_char d = ''0123456789'' ! d"

fun str_nat :: "nat \<Rightarrow> string" where
  "str_nat n = (if n < 10 then [digit_char n] else str_nat (n div 10) @ [digit_char (n mod 10)])"

declare str_nat.simps [simp del]

text \<open>\<open>str(i)\<close> of a Python \<open>int\<close>, as an f-string renders it.\<close>

definition str_int :: "int \<Rightarrow> string" where
  "str_int i = (if i < 0 then CHR ''-'' # str_nat (nat (- i)) else str_nat (nat i))"

text \<open>
  What a call can raise. \<open>exception\<close> are the instances of Python's \<open>Exception\<close>, each
  carrying its \<open>str(e)\<close>: \<open>urllib.error.URLError\<close> (and its subclass \<open>HTTPError\<close>) is told
  apart because \<open>check_stream_accessible\<close> has a handler of its own for it. An operator
  interrupt, \<open>KeyboardInterrupt\<close>, is a \<open>BaseException\<close> and no \<open>Exception\<close>:
  \<open>except Exception\<close> lets it pass.
\<close>

datatype exception = URLError string | OtherException string

fun str_exception :: "exception \<Rightarrow> string" where
  "str_exception (URLError m) = m"
| "str_exception (OtherException m) = m"

datatype raised = Exception exception | KeyboardInterrupt


section \<open>The stream health checker (scripts/check_stream_health.py)\<close>

definition STREAM_URL :: string where
  "STREAM_URL = ''http://localhost:5173/stream''"

definition HEALTH_CHECK_INTERVAL :: int where
  "HEALTH_CHECK_INTERVAL = 30"

text \<open>
  What the script does to the outside, in order: an HTTP GET, a line printed by
  \<open>print_status\<close> (its colour stands for the branch taken; the timestamp, the ANSI codes
  and the emoji are left out of the text), a line printed by \<open>print\<close>, a \<open>time.sleep\<close>
  and \<open>sys.exit\<close>.
\<close>

datatype colour = GREEN | YELLOW | RED

datatype event = Get string | Status colour string | Print string | Sleep int | Exit int

text \<open>
  \<open>urllib.request.urlopen(url, timeout=5)\<close> either gives a response, of which the script
  reads the status only (\<open>Inr status\<close>), or raises (\<open>Inl\<close>).
\<close>

type_synonym urlopen = "string \<Rightarrow> raised + int"

definition check_stream_accessible :: "urlopen \<Rightarrow> (raised + bool \<times> string) \<times> event list" where
  "check_stream_accessible urlopen =
     (case urlopen STREAM_URL of
        Inr status \<Rightarrow>
          (if status = 200 then Inr (True, ''Stream page is accessible'')
           else Inr (False, ''Stream returned status '' @ str_int status))
      | Inl (Exception (URLError m)) \<Rightarrow>
          Inr (False, ''Cannot connect to stream: '' @ str_exception (URLError m))
      | Inl (Exception (OtherException m)) \<Rightarrow>
          Inr (False, ''Error checking stream: '' @ str_exception (OtherException m))
      | Inl KeyboardInterrupt \<Rightarrow> Inl KeyboardInterrupt,
      [Get STREAM_URL])"

definition endpoints :: "string list" where
  "endpoints =
     [''http://localhost:5173/api/space-weather/comprehensive'',
      ''http://localhost:5173/api/solar-wind/current'']"

text \<open>
  \<open>results[endpoint] = v\<close> on a dict kept as an association list in insertion order: an
  existing key keeps its place, a new one goes last.
\<close>

fun dict_set :: "('k \<times> 'v) list \<Rightarrow> 'k \<Rightarrow> 'v \<Rightarrow> ('k \<times> 'v) list" where
  "dict_set [] k v = [(k, v)]"
| "dict_set ((k', v') # kvs) k v =
     (if k' = k then (k, v) # kvs else (k', v') # dict_set kvs k v)"

text \<open>The \<open>try\<close> statement of the loop in \<open>check_api_endpoints\<close>, for one endpoint.\<close>

definition probe_endpoint :: "raised + int \<Rightarrow> raised + string" where
  "probe_endpoint r =
     (case r of
        Inr status \<Rightarrow> Inr (if status = 200 then ''OK'' else ''Status '' @ str_int status)
      | Inl (Exception e) \<Rightarrow> Inr (''Error: '' @ take 50 (str_exception e))
      | Inl KeyboardInterrupt \<Rightarrow> Inl KeyboardInterrupt)"

fun api_loop ::
  "urlopen \<Rightarrow> string list \<Rightarrow> (string \<times> string) list
     \<Rightarrow> (raised + (string \<times> string) list) \<times> event list" where
  "api_loop urlopen [] results = (Inr results, [])"
| "api_loop urlopen (endpoint # rest) results =
     (case probe_endpoint (urlopen endpoint) of
        Inl r \<Rightarrow> (Inl r, [Get endpoint])
      | Inr v \<Rightarrow>
          (case api_loop urlopen rest (dict_set results endpoint v) of
             (out, evs) \<Rightarrow> (out, Get endpoint # evs)))"

definition check_api_endpoints :: "urlopen \<Rightarrow> (raised + (string \<times> string) list) \<times> event list" where
  "check_api_endpoints urlopen = api_loop urlopen endpoints []"

definition print_status :: "string \<Rightarrow> string \<Rightarrow> event list" where
  "print_status status message =
     (if status = ''OK'' then [Status GREEN message]
      else if status = ''WARNING'' then [Status YELLOW message]
      else [Status RED message])"

text \<open>\<open>endpoint.split('/')[-1]\<close>: what follows the last slash, the whole string without one.\<close>

definition last_segment :: "string \<Rightarrow> string" where
  "last_segment s = rev (takeWhile (\<lambda>c. c \<noteq> CHR ''/'') (rev s))"

text \<open>
  \<open>time.time() % (HEALTH_CHECK_INTERVAL * 2)\<close>. The clock reading is a finite,
  non-negative float, hence a rational number, and the remainder of a float by \<open>60\<close> is
  computed exactly (\<open>fmod\<close>), so the rationals give the value the script compares.
\<close>

definition float_mod :: "rat \<Rightarrow> rat \<Rightarrow> rat" where
  "float_mod a b = a - b * of_int \<lfloor>a / b\<rfloor>"

definition api_due :: "rat \<Rightarrow> bool" where
  "api_due now \<longleftrightarrow> float_mod now (of_int (HEALTH_CHECK_INTERVAL * 2)) < of_int HEALTH_CHECK_INTERVAL"

text \<open>
  What one pass of the \<open>while True\<close> loop meets: the outcome of \<open>urlopen\<close> per URL, the
  reading of \<open>time.time()\<close> at line 92, and whether the operator interrupts
  \<open>time.sleep\<close>.
\<close>

record tick =
  urlopen_of :: urlopen
  now :: rat
  sleep_interrupted :: bool

text \<open>Lines 79 to 89: the primary probe and the counter.\<close>

definition primary_section :: "tick \<Rightarrow> int \<Rightarrow> (raised + int) \<times> event list" where
  "primary_section w consecutive_failures =
     (case check_stream_accessible (urlopen_of w) of
        (Inl r, evs) \<Rightarrow> (Inl r, evs)
      | (Inr (accessible, message), evs) \<Rightarrow>
          (if accessible then (Inr 0, evs @ print_status ''OK'' message)
           else
             (let n = consecutive_failures + 1 in
              (Inr n,
               evs @ print_status ''ERROR'' message @
               (if n \<ge> 3
                then print_status ''ERROR'' ''Multiple consecutive failures detected!'' @
                     [Print ''   Consider restarting the dev server'']
                else [])))))"

text \<open>Lines 94 to 98: one line per entry of the results.\<close>

fun report_api :: "(string \<times> string) list \<Rightarrow> event list" where
  "report_api [] = []"
| "report_api ((endpoint, result) # rest) =
     (if result = ''OK''
      then print_status ''OK'' (''API endpoint OK: '' @ last_segment endpoint)
      else print_status ''WARNING''
             (''API issue: '' @ last_segment endpoint @ '' - '' @ result)) @
     report_api rest"

text \<open>Lines 92 to 98: the gate and the secondary probes.\<close>

definition api_section :: "tick \<Rightarrow> (raised + unit) \<times> event list" where
  "api_section w =
     (if api_due (now w) then
        (case check_api_endpoints (urlopen_of w) of
           (Inl r, evs) \<Rightarrow> (Inl r, evs)
         | (Inr api_results, evs) \<Rightarrow> (Inr (), evs @ report_api api_results))
      else (Inr (), []))"

text \<open>Line 100.\<close>

definition sleep_section :: "tick \<Rightarrow> (raised + unit) \<times> event list" where
  "sleep_section w =
     (if sleep_interrupted w then Inl KeyboardInterrupt else Inr (),
      [Sleep HEALTH_CHECK_INTERVAL])"

text \<open>The body of the loop: the counter after it, or what it raised, and what it did.\<close>

definition iteration :: "tick \<Rightarrow> int \<Rightarrow> (raised + int) \<times> event list" where
  "iteration w consecutive_failures =
     (case primary_section w consecutive_failures of
        (Inl r, ev1) \<Rightarrow> (Inl r, ev1)
      | (Inr n, ev1) \<Rightarrow>
          (case api_section w of
             (Inl r, ev2) \<Rightarrow> (Inl r, ev1 @ ev2)
           | (Inr _, ev2) \<Rightarrow>
               (case sleep_section w of
                  (Inl r, ev3) \<Rightarrow> (Inl r, ev1 @ ev2 @ ev3)
                | (Inr _, ev3) \<Rightarrow> (Inr n, ev1 @ ev2 @ ev3))))"

text \<open>
  The process after a finite run of passes: still in the loop, with its counter, or exited
  with a status. The \<open>while True\<close> loop has no exit of its own, so the model runs it on the
  passes it is given and reports \<open>Running\<close> when they are used up. \<open>KeyboardInterrupt\<close>
  reaches the handler of line 102; an \<open>Exception\<close> leaving the loop would be uncaught, which
  ends a Python process with status 1.
\<close>

datatype process = Running int | Exited int

fun monitor :: "tick list \<Rightarrow> int \<Rightarrow> process \<times> event list" where
  "monitor [] consecutive_failures = (Running consecutive_failures, [])"
| "monitor (w # ws) consecutive_failures =
     (case iteration w consecutive_failures of
        (Inr n, evs) \<Rightarrow> (case monitor ws n of (p, evs') \<Rightarrow> (p, evs @ evs'))
      | (Inl KeyboardInterrupt, evs) \<Rightarrow>
          (Exited 0, evs @ [Print ''Monitoring stopped by user'', Exit 0])
      | (Inl (Exception e), evs) \<Rightarrow> (Exited 1, evs))"

definition main_monitor :: "tick list \<Rightarrow> process \<times> event list" where
  "main_monitor ws =
     (case monitor ws 0 of
        (p, evs) \<Rightarrow>
          (p,
           [Print ''Heliosinger Stream Health Monitor'',
            Print (''Monitoring: '' @ STREAM_URL),
            Print (''Check interval: '' @ str_int HEALTH_CHECK_INTERVAL @ '' seconds''),
            Print ''Press Ctrl+C to stop''] @ evs))"

section \<open>The OBS setup helper (scripts/obs_setup_helper.py)\<close>

text \<open>
  What a check hands back to \<open>main\<close>: \<open>True\<close>, \<open>False\<close>, or \<open>None\<close> when the function
  ends without a \<open>return\<close>. \<open>truthy\<close> is the truth value \<open>all\<close> takes of it.
\<close>

datatype pyval = PBool bool | PNone

fun truthy :: "pyval \<Rightarrow> bool" where
  "truthy (PBool b) = b"
| "truthy PNone = False"

text \<open>
  A line of the report, by the function that prints it (\<open>print_header\<close>, \<open>print_success\<close>,
  \<open>print_warning\<close>, \<open>print_error\<close>, \<open>print_info\<close>, \<open>print\<close>); the ANSI codes and the
  emoji are left out of the text. The fixed instruction and troubleshooting texts, which
  hold no data of the run, are one item each.
\<close>

datatype line =
  Header string | Success string | Warning string | Error string | Info string | Plain string
  | InstructionText | TroubleshootingText

text \<open>\<open>needle in haystack\<close> on strings.\<close>

fun startswith :: "string \<Rightarrow> string \<Rightarrow> bool" where
  "startswith s [] = True"
| "startswith [] (p # ps) = False"
| "startswith (c # cs) (p # ps) = (c = p \<and> startswith cs ps)"

fun py_in :: "string \<Rightarrow> string \<Rightarrow> bool" where
  "py_in needle [] = (needle = [])"
| "py_in needle (c # cs) = (startswith (c # cs) needle \<or> py_in needle cs)"

text \<open>The settings document, and a file by what \<open>json.load\<close> makes of it.\<close>

datatype json = JString string | JInt int | JBool bool | JObject "(string \<times> json) list"

datatype content = Json json | Other string




text \<open>
  What a run of the helper meets. A call that can raise gives \<open>Inl\<close> of the exception;
  \<open>os.path.exists\<close> never raises. The operator's interrupt is not part of this model: the
  script has no handler for it.
  \<^item> \<open>path_exists\<close>: \<open>os.path.exists\<close>;
  \<^item> \<open>system_profiler\<close>: the standard output of \<open>system_profiler SPDisplaysDataType\<close>;
  \<^item> \<open>connect_ex\<close>: what lines 95 to 98 give, the value of \<open>sock.connect_ex\<close>;
  \<^item> \<open>urlopen_stream\<close>: the status of the response to the GET of line 103;
  \<^item> \<open>config_base_exists\<close>, \<open>profiles_exists\<close>, \<open>profiles_iterdir\<close>: the \<open>Path\<close>
    methods on \<open>OBS_CONFIG_BASE\<close> and \<open>OBS_BASIC_PROFILES\<close>;
  \<^item> \<open>cpu_count\<close>: \<open>os.cpu_count()\<close>, which may be \<open>None\<close>; \<open>platform_system\<close>;
  \<^item> \<open>sysctl_memsize\<close>: return code and standard output of \<open>sysctl -n hw.memsize\<close>;
  \<^item> \<open>int_of_text\<close>: \<open>int(s.strip())\<close>; \<open>format_gb\<close>: the text of
    \<open>n / (1024**3)\<close> under \<open>:.1f\<close> (float arithmetic, taken from the environment);
  \<^item> \<open>which_caffeinate\<close>: the return code of \<open>which caffeinate\<close>;
  \<^item> \<open>script_dir\<close>: \<open>Path(__file__).parent\<close>; \<open>open_template\<close>: the exception of
    \<open>open(template_path, 'w')\<close>, if it raises.
\<close>

record env =
  path_exists :: "string \<Rightarrow> bool"
  system_profiler :: "exception + string"
  connect_ex :: "exception + int"
  urlopen_stream :: "exception + int"
  config_base_exists :: "exception + bool"
  profiles_exists :: "exception + bool"
  profiles_iterdir :: "exception + string list"
  cpu_count :: "int option"
  platform_system :: string
  sysctl_memsize :: "exception + int \<times> string"
  int_of_text :: "string \<Rightarrow> exception + int"
  format_gb :: "int \<Rightarrow> exception + string"
  which_caffeinate :: "exception + int"
  script_dir :: string
  open_template :: "exception option"

text \<open>A check: what it returned or raised, and the lines it printed.\<close>

type_synonym check = "(exception + pyval) \<times> line list"

definition obs_paths :: "string list" where
  "obs_paths = [''/Applications/OBS.app'', ''/Applications/OBS Studio.app'', ''/usr/local/bin/obs'']"

fun find_obs :: "(string \<Rightarrow> bool) \<Rightarrow> string list \<Rightarrow> check" where
  "find_obs ex [] =
     (Inr (PBool False),
      [Error ''OBS Studio not found'', Info ''Install with: brew install --cask obs''])"
| "find_obs ex (path # rest) =
     (if ex path then (Inr (PBool True), [Success (''OBS Studio found at: '' @ path)])
      else find_obs ex rest)"

definition check_obs_installed :: "env \<Rightarrow> check" where
  "check_obs_installed e = find_obs (path_exists e) obs_paths"

definition check_hardware_encoding :: "env \<Rightarrow> check" where
  "check_hardware_encoding e =
     (case system_profiler e of
        Inr stdout \<Rightarrow>
          (if py_in ''Metal'' stdout
           then (Inr (PBool True),
                 [Success ''Hardware encoding supported (Metal detected)'',
                  Info ''Use 'Apple VT H264 Hardware Encoder' in OBS''])
           else (Inr (PBool False),
                 [Warning ''Metal not detected - may need software encoding'']))
      | Inl x \<Rightarrow>
          (Inr (PBool False),
           [Warning (''Could not check hardware encoding: '' @ str_exception x)]))"

definition check_dev_server :: "env \<Rightarrow> check" where
  "check_dev_server e =
     (case connect_ex e of
        Inl x \<Rightarrow>
          (Inr (PBool False), [Error (''Could not check dev server: '' @ str_exception x)])
      | Inr result \<Rightarrow>
          (if result = 0 then
             (case urlopen_stream e of
                Inr status \<Rightarrow>
                  (if status = 200
                   then (Inr (PBool True),
                         [Success ''Dev server is running and stream page is accessible''])
                   else (Inr PNone, []))
              | Inl x \<Rightarrow>
                  (Inr (PBool False),
                   [Warning ''Dev server is running but /stream page may not be accessible'']))
           else
             (Inr (PBool False),
              [Error ''Dev server is not running on port 5173'',
               Info ''Start with: cd /Volumes/VIXinSSD/SolarChime && npm run dev''])))"

definition check_obs_config :: "env \<Rightarrow> check" where
  "check_obs_config e =
     (case config_base_exists e of
        Inl x \<Rightarrow> (Inl x, [])
      | Inr False \<Rightarrow>
          (Inr (PBool False),
           [Warning ''OBS configuration directory not found'',
            Info ''OBS may not have been launched yet''])
      | Inr True \<Rightarrow>
          (case profiles_exists e of
             Inl x \<Rightarrow> (Inl x, [Success ''OBS configuration directory found''])
           | Inr False \<Rightarrow> (Inr (PBool True), [Success ''OBS configuration directory found''])
           | Inr True \<Rightarrow>
               (case profiles_iterdir e of
                  Inl x \<Rightarrow> (Inl x, [Success ''OBS configuration directory found''])
                | Inr profiles \<Rightarrow>
                    (Inr (PBool True),
                     [Success ''OBS configuration directory found'',
                      if profiles \<noteq> []
                      then Info (''Found '' @ str_int (int (length profiles)) @ '' OBS profile(s)'')
                      else Warning ''No OBS profiles found - create one in OBS'']))))"

text \<open>
  The body of the \<open>try\<close> of \<open>check_system_resources\<close>, in three steps: the exception that
  ended the step, if one did, and the lines printed until then.
\<close>

definition cpu_step :: "env \<Rightarrow> exception option \<times> line list" where
  "cpu_step e =
     (None,
      [Info (''CPU cores: '' @ (case cpu_count e of None \<Rightarrow> ''None'' | Some n \<Rightarrow> str_int n))])"

definition memory_step :: "env \<Rightarrow> exception option \<times> line list" where
  "memory_step e =
     (if platform_system e = ''Darwin'' then
        (case sysctl_memsize e of
           Inl x \<Rightarrow> (Some x, [])
         | Inr (returncode, stdout) \<Rightarrow>
             (if returncode = 0 then
                (case int_of_text e stdout of
                   Inl x \<Rightarrow> (Some x, [])
                 | Inr n \<Rightarrow>
                     (case format_gb e n of
                        Inl x \<Rightarrow> (Some x, [])
                      | Inr mem_gb \<Rightarrow> (None, [Info (''Total RAM: '' @ mem_gb @ '' GB'')])))
              else (None, [])))
      else (None, []))"

definition caffeinate_step :: "env \<Rightarrow> exception option \<times> line list" where
  "caffeinate_step e =
     (case which_caffeinate e of
        Inl x \<Rightarrow> (Some x, [])
      | Inr returncode \<Rightarrow>
          (if returncode = 0
           then (None, [Success ''caffeinate available (for preventing sleep)''])
           else (None, [Warning ''caffeinate not found''])))"

definition resources_body :: "env \<Rightarrow> exception option \<times> line list" where
  "resources_body e =
     (case cpu_step e of
        (Some x, l1) \<Rightarrow> (Some x, l1)
      | (None, l1) \<Rightarrow>
          (case memory_step e of
             (Some x, l2) \<Rightarrow> (Some x, l1 @ l2)
           | (None, l2) \<Rightarrow>
               (case caffeinate_step e of (r, l3) \<Rightarrow> (r, l1 @ l2 @ l3))))"

text \<open>No path of the function has a \<open>return\<close>: it ends with \<open>None\<close>.\<close>

definition check_system_resources :: "env \<Rightarrow> check" where
  "check_system_resources e =
     (case resources_body e of
        (None, ls) \<Rightarrow> (Inr PNone, ls)
      | (Some x, ls) \<Rightarrow>
          (Inr PNone, ls @ [Warning (''Could not check system resources: '' @ str_exception x)]))"

definition settings :: json where
  "settings =
     JObject
       [(''video'',
         JObject
           [(''base_resolution'', JString ''1920x1080''),
            (''output_resolution'', JString ''1920x1080''),
            (''fps'', JInt 30)]),
        (''output'',
         JObject
           [(''mode'', JString ''simple''),
            (''video_bitrate'', JInt 6000),
            (''audio_bitrate'', JInt 160),
            (''encoder'', JString ''Apple VT H264 Hardware Encoder'')]),
        (''audio'',
         JObject [(''sample_rate'', JInt 48000), (''channels'', JInt 2)]),
        (''browser_source'',
         JObject
           [(''url'', JString ''http://localhost:5173/stream''),
            (''width'', JInt 1920),
            (''height'', JInt 1080),
            (''fps'', JInt 30),
            (''shutdown_when_not_visible'', JBool True),
            (''refresh_when_scene_active'', JBool True)])]"

definition template_path :: "env \<Rightarrow> string" where
  "template_path e = script_dir e @ ''/obs_settings_template.json''"

text \<open>
  \<open>open(template_path, 'w')\<close> empties the file and \<open>json.dump\<close> writes the document; when
  \<open>open\<close> raises, nothing is written and the exception leaves the function.
\<close>

definition generate_obs_settings_template ::
  "env \<Rightarrow> (string \<rightharpoonup> content) \<Rightarrow> (exception + string) \<times> line list \<times> (string \<rightharpoonup> content)" where
  "generate_obs_settings_template e files =
     (case open_template e of
        Some x \<Rightarrow> (Inl x, [], files)
      | None \<Rightarrow>
          (Inr (template_path e),
           [Success (''Settings template saved to: '' @ template_path e)],
           files(template_path e \<mapsto> Json settings)))"

definition print_header :: "string \<Rightarrow> line list" where
  "print_header text = [Header text]"

definition print_setup_instructions :: "line list" where
  "print_setup_instructions = print_header ''OBS Setup Instructions'' @ [InstructionText]"

definition print_troubleshooting :: "line list" where
  "print_troubleshooting = print_header ''Troubleshooting Tips'' @ [TroubleshootingText]"

text \<open>The dict \<open>checks\<close> of \<open>main\<close>, in its order, each check with what it does in \<open>e\<close>.\<close>

definition checks :: "env \<Rightarrow> (string \<times> check) list" where
  "checks e =
     [(''OBS Installation'', check_obs_installed e),
      (''Hardware Encoding'', check_hardware_encoding e),
      (''Dev Server'', check_dev_server e),
      (''OBS Configuration'', check_obs_config e),
      (''System Resources'', check_system_resources e)]"

text \<open>Lines 261 to 268: the loop over the checks.\<close>

fun run_checks ::
  "(string \<times> check) list \<Rightarrow> (string \<times> pyval) list \<Rightarrow> (string \<times> pyval) list \<times> line list" where
  "run_checks [] results = (results, [])"
| "run_checks ((name, check_func) # rest) results =
     (case check_func of
        (Inr v, ls) \<Rightarrow>
          (case run_checks rest (dict_set results name v) of
             (final, ls') \<Rightarrow> (final, Plain (''Checking: '' @ name) # ls @ ls'))
      | (Inl x, ls) \<Rightarrow>
          (case run_checks rest (dict_set results name (PBool False)) of
             (final, ls') \<Rightarrow>
               (final,
                Plain (''Checking: '' @ name) # ls @
                [Error (''Error checking '' @ name @ '': '' @ str_exception x)] @ ls')))"

text \<open>Lines 271 to 277.\<close>

definition template_section :: "env \<Rightarrow> (string \<rightharpoonup> content) \<Rightarrow> line list \<times> (string \<rightharpoonup> content)" where
  "template_section e files =
     (case generate_obs_settings_template e files of
        (Inr path, ls, files') \<Rightarrow>
          ([Plain (replicate 60 CHR ''=''), Plain ''Generating OBS settings template...''] @ ls @
           [Info (''Reference template: '' @ path)], files')
      | (Inl x, ls, files') \<Rightarrow>
          ([Plain (replicate 60 CHR ''=''), Plain ''Generating OBS settings template...''] @ ls @
           [Warning (''Could not generate template: '' @ str_exception x)], files'))"

text \<open>Lines 286 to 293.\<close>

definition summary :: "(string \<times> pyval) list \<Rightarrow> line list" where
  "summary results =
     print_header ''Setup Summary'' @
     (if list_all truthy (map snd results)
      then [Success ''All checks passed! You're ready to stream.'']
      else [Warning ''Some checks failed. Review the issues above.'',
            Info ''Run this script again after fixing issues.''])"

record run =
  results_of :: "(string \<times> pyval) list"
  printed :: "line list"
  files_of :: "string \<rightharpoonup> content"

definition main :: "env \<Rightarrow> (string \<rightharpoonup> content) \<Rightarrow> run" where
  "main e files =
     (case run_checks (checks e) [] of
        (results, check_lines) \<Rightarrow>
          (case template_section e files of
             (template_lines, files') \<Rightarrow>
               \<lparr>results_of = results,
                printed =
                  print_header ''Heliosinger OBS Setup Helper'' @
                  [Plain ''Checking system requirements...''] @ check_lines @
                  template_lines @ print_setup_instructions @ print_troubleshooting @
                  summary results @
                  [Plain (replicate 60 CHR ''=''), Plain ''Quick Start:'',
                   Plain ''  1. Run: ./scripts/helio-stream.sh'',
                   Plain ''  2. Configure OBS as shown above'',
                   Plain ''  3. Start streaming!'', Plain (replicate 60 CHR ''='')],
                files_of = files'\<rparr>))"


subsection \<open>Observations on a run of the helper\<close>

text \<open>What lines 264 to 268 put into \<open>results\<close> for a check.\<close>

definition recorded :: "check \<Rightarrow> pyval" where
  "recorded c = (case fst c of Inr v \<Rightarrow> v | Inl x \<Rightarrow> PBool False)"


text \<open>The two summaries of lines 290 and 292.\<close>

definition all_passed_line :: line where
  "all_passed_line = Success ''All checks passed! You're ready to stream.''"

definition some_failed_line :: line where
  "some_failed_line = Warning ''Some checks failed. Review the issues above.''"

text \<open>
  Inputs for the examples: a machine on which OBS is installed, Metal is reported, the dev
  server answers 200 on \<open>/stream\<close> and the OBS configuration directory exists.
\<close>

definition ready_env :: env where
  "ready_env =
     \<lparr>path_exists = (\<lambda>p. p = ''/Applications/OBS.app''),
      system_profiler = Inr ''Chipset Model: Apple M1; Metal Support: Metal 3'',
      connect_ex = Inr 0,
      urlopen_stream = Inr 200,
      config_base_exists = Inr True,
      profiles_exists = Inr True,
      profiles_iterdir = Inr [''Untitled''],
      cpu_count = Some 8,
      platform_system = ''Darwin'',
      sysctl_memsize = Inr (0, ''17179869184''),
      int_of_text = (\<lambda>s. Inr 17179869184),
      format_gb = (\<lambda>n. Inr ''16.0''),
      which_caffeinate = Inr 0,
      script_dir = ''/Users/me/heliosinger/scripts'',
      open_template = None\<rparr>"

text \<open>The lines of lines 263 to 268 for one check: its name, its own lines, the error.\<close>

definition reported :: "string \<times> check \<Rightarrow> line list" where
  "reported nc =
     (case nc of
        (name, c) \<Rightarrow>
          Plain (''Checking: '' @ name) # snd c @
          (case fst c of
             Inl x \<Rightarrow> [Error (''Error checking '' @ name @ '': '' @ str_exception x)]
           | Inr v \<Rightarrow> []))"

text \<open>
  The same machine with the OBS configuration directory unreadable, so that
  \<open>OBS_CONFIG_BASE.exists()\<close> raises; and a list of two checks of which the first raises.
\<close>

definition denied_env :: env where
  "denied_env =
     ready_env\<lparr>config_base_exists :=
       Inl (OtherException ''[Errno 13] Permission denied'')\<rparr>"

definition two_checks :: "(string \<times> check) list" where
  "two_checks =
     [(''First'', (Inl (OtherException ''boom''), [Info ''started''])),
      (''Second'', (Inr (PBool True), [Success ''fine'']))]"

section \<open>Properties of the stream health checker: preparation\<close>

subsection \<open>Observations on a run\<close>

text \<open>The advisory line of line 88.\<close>

definition advisory :: event where
  "advisory = Status RED ''Multiple consecutive failures detected!''"

text \<open>A trace in which one of the API endpoints was requested.\<close>

definition api_probed :: "event list \<Rightarrow> bool" where
  "api_probed evs \<longleftrightarrow> (\<exists>u\<in>set endpoints. Get u \<in> set evs)"

text \<open>
  A pass in which the operator's interrupt is delivered: in the primary request, in a
  request to an API endpoint when these are due, or in the sleep.
\<close>

definition interrupted :: "tick \<Rightarrow> bool" where
  "interrupted w \<longleftrightarrow>
     urlopen_of w STREAM_URL = Inl KeyboardInterrupt \<or>
     (api_due (now w) \<and> (\<exists>u\<in>set endpoints. urlopen_of w u = Inl KeyboardInterrupt)) \<or>
     sleep_interrupted w"

text \<open>Inputs for the examples: a name-resolution failure as \<open>urlopen\<close> words it, and passes.\<close>

definition long_error :: string where
  "long_error = ''<urlopen error [Errno 8] nodename nor servname provided, or not known>''"

definition failing_tick :: tick where
  "failing_tick = \<lparr>urlopen_of = (\<lambda>url. Inr 503), now = 30, sleep_interrupted = False\<rparr>"

definition healthy_tick :: tick where
  "healthy_tick = \<lparr>urlopen_of = (\<lambda>url. Inr 200), now = 45, sleep_interrupted = False\<rparr>"

definition refused_tick :: tick where
  "refused_tick =
     \<lparr>urlopen_of = (\<lambda>url. Inl (Exception (URLError ''<urlopen error [Errno 61] Connection refused>''))),
      now = 70, sleep_interrupted = False\<rparr>"

definition stopped_tick :: tick where
  "stopped_tick = \<lparr>urlopen_of = (\<lambda>url. Inr 200), now = 45, sleep_interrupted = True\<rparr>"

definition flaky_api :: urlopen where
  "flaky_api url =
     (if url = ''http://localhost:5173/api/space-weather/comprehensive''
      then Inl (Exception (OtherException long_error))
      else Inr 200)"

subsection \<open>The secondary probe\<close>

lemma probe_endpoint_cases:
  "probe_endpoint r = Inl x \<longleftrightarrow> x = KeyboardInterrupt \<and> r = Inl KeyboardInterrupt"
  by (auto simp: probe_endpoint_def split: sum.splits raised.splits)

lemma dict_set_fresh: "k \<notin> fst ` set kvs \<Longrightarrow> dict_set kvs k v = kvs @ [(k, v)]"
  by (induction kvs) auto

lemma api_loop_returns:
  assumes "\<forall>u\<in>set us. urlopen u \<noteq> Inl KeyboardInterrupt"
      and "distinct us" and "set us \<inter> fst ` set results = {}"
  shows "api_loop urlopen us results =
           (Inr (results @ map (\<lambda>u. (u, projr (probe_endpoint (urlopen u)))) us), map Get us)"
  using assms
proof (induction us arbitrary: results)
  case Nil
  then show ?case by simp
next
  case (Cons u us)
  from Cons.prems(1) obtain v where v: "probe_endpoint (urlopen u) = Inr v"
    by (cases "probe_endpoint (urlopen u)") (auto simp: probe_endpoint_cases)
  have fresh: "u \<notin> fst ` set results" using Cons.prems(3) by auto
  have "set us \<inter> fst ` set (dict_set results u v) = {}"
    using Cons.prems(2,3) by (auto simp: dict_set_fresh [OF fresh])
  with Cons.IH [of "dict_set results u v"] Cons.prems(1,2)
  show ?case by (simp add: v dict_set_fresh [OF fresh])
qed

lemma api_loop_raises:
  "fst (api_loop urlopen us results) = Inl r \<longleftrightarrow>
     r = KeyboardInterrupt \<and> (\<exists>u\<in>set us. urlopen u = Inl KeyboardInterrupt)"
proof (induction us arbitrary: results)
  case Nil
  then show ?case by simp
next
  case (Cons u us)
  show ?case
  proof (cases "probe_endpoint (urlopen u)")
    case (Inl x)
    then have "x = KeyboardInterrupt" "urlopen u = Inl KeyboardInterrupt"
      by (simp_all add: probe_endpoint_cases)
    with Inl show ?thesis by auto
  next
    case (Inr v)
    then have "urlopen u \<noteq> Inl KeyboardInterrupt"
      by (auto simp: probe_endpoint_def)
    with Inr Cons.IH [of "dict_set results u v"] show ?thesis
      by (auto split: prod.splits)
  qed
qed

lemma api_loop_first_get:
  "Get u \<in> set (snd (api_loop urlopen (u # us) results))"
  by (auto split: sum.splits prod.splits)

lemma api_loop_gets:
  "set (snd (api_loop urlopen us results)) \<subseteq> Get ` set us"
proof (induction us arbitrary: results)
  case Nil
  then show ?case by simp
next
  case (Cons u us)
  show ?case
  proof (cases "probe_endpoint (urlopen u)")
    case (Inl x)
    then show ?thesis by simp
  next
    case (Inr v)
    with Cons.IH [of "dict_set results u v"] show ?thesis
      by (cases "api_loop urlopen us (dict_set results u v)") auto
  qed
qed

lemma STREAM_URL_not_endpoint: "STREAM_URL \<notin> set endpoints"
  by (simp add: STREAM_URL_def endpoints_def)

lemma distinct_endpoints: "distinct endpoints"
  by (simp add: endpoints_def)

subsection \<open>The body of the loop\<close>

lemma primary_section_ok:
  "urlopen_of w STREAM_URL = Inr 200 \<Longrightarrow>
     primary_section w n =
       (Inr 0, [Get STREAM_URL, Status GREEN ''Stream page is accessible''])"
  by (simp add: primary_section_def check_stream_accessible_def print_status_def)

lemma primary_section_error:
  assumes "urlopen_of w STREAM_URL \<noteq> Inr 200" "urlopen_of w STREAM_URL \<noteq> Inl KeyboardInterrupt"
  shows "\<exists>m. m \<noteq> ''Multiple consecutive failures detected!'' \<and>
     primary_section w n =
       (Inr (n + 1),
        [Get STREAM_URL, Status RED m] @
        (if n + 1 \<ge> 3
         then [advisory, Print ''   Consider restarting the dev server'']
         else []))"
  using assms
  by (auto simp: primary_section_def check_stream_accessible_def print_status_def advisory_def
      Let_def split: sum.splits raised.splits exception.splits)

lemma primary_section_interrupt:
  "urlopen_of w STREAM_URL = Inl KeyboardInterrupt \<Longrightarrow>
     primary_section w n = (Inl KeyboardInterrupt, [Get STREAM_URL])"
  by (simp add: primary_section_def check_stream_accessible_def)

lemma print_status_literal:
  "print_status ''OK'' m = [Status GREEN m]"
  "print_status ''WARNING'' m = [Status YELLOW m]"
  "print_status ''ERROR'' m = [Status RED m]"
  by (simp_all add: print_status_def)

lemma report_api_colours: "Status RED m \<notin> set (report_api rs)"
  by (induction rs) (auto simp: print_status_literal split: if_splits)

lemma report_api_no_get: "Get u \<notin> set (report_api rs)"
  by (induction rs) (auto simp: print_status_literal split: if_splits)

lemma api_section_no_red: "Status RED m \<notin> set (snd (api_section w))"
  using api_loop_gets [of "urlopen_of w" endpoints "[]"] report_api_colours
  by (auto simp: api_section_def check_api_endpoints_def split: prod.splits sum.splits)

lemma api_section_raises:
  "fst (api_section w) = Inl r \<longleftrightarrow>
     r = KeyboardInterrupt \<and> api_due (now w) \<and>
     (\<exists>u\<in>set endpoints. urlopen_of w u = Inl KeyboardInterrupt)"
  using api_loop_raises [of "urlopen_of w" endpoints "[]" r]
  by (auto simp: api_section_def check_api_endpoints_def split: prod.splits sum.splits)

lemma api_section_probed: "api_probed (snd (api_section w)) \<longleftrightarrow> api_due (now w)"
proof (cases "api_due (now w)")
  case False
  then show ?thesis by (simp add: api_section_def api_probed_def)
next
  case True
  have "Get (hd endpoints) \<in> set (snd (check_api_endpoints (urlopen_of w)))"
    using api_loop_first_get by (simp add: check_api_endpoints_def endpoints_def)
  moreover have "hd endpoints \<in> set endpoints" by (simp add: endpoints_def)
  ultimately have "api_probed (snd (check_api_endpoints (urlopen_of w)))"
    unfolding api_probed_def by blast
  with True show ?thesis
    by (auto simp: api_section_def api_probed_def split: prod.splits sum.splits)
qed

lemma api_section_gets: "Get u \<in> set (snd (api_section w)) \<Longrightarrow> u \<in> set endpoints"
  using api_loop_gets [of "urlopen_of w" endpoints "[]"] report_api_no_get
  by (auto simp: api_section_def check_api_endpoints_def split: prod.splits sum.splits if_splits)

lemma primary_section_cases:
  obtains (interrupt) "urlopen_of w STREAM_URL = Inl KeyboardInterrupt"
      "primary_section w n = (Inl KeyboardInterrupt, [Get STREAM_URL])"
  | (ok) "urlopen_of w STREAM_URL = Inr 200"
      "primary_section w n = (Inr 0, [Get STREAM_URL, Status GREEN ''Stream page is accessible''])"
  | (error) m where "urlopen_of w STREAM_URL \<noteq> Inl KeyboardInterrupt"
      "urlopen_of w STREAM_URL \<noteq> Inr 200"
      "m \<noteq> ''Multiple consecutive failures detected!''"
      "primary_section w n =
        (Inr (n + 1),
         [Get STREAM_URL, Status RED m] @
         (if n + 1 \<ge> 3 then [advisory, Print ''   Consider restarting the dev server''] else []))"
  using primary_section_interrupt [of w n] primary_section_ok [of w n]
    primary_section_error [of w n] by blast

lemma primary_section_raises:
  "fst (primary_section w n) = Inl r \<longleftrightarrow>
     r = KeyboardInterrupt \<and> urlopen_of w STREAM_URL = Inl KeyboardInterrupt"
  by (cases w n rule: primary_section_cases) auto

lemma primary_section_advisory:
  "fst (primary_section w n) = Inr n' \<Longrightarrow>
     advisory \<in> set (snd (primary_section w n)) \<longleftrightarrow> n' \<ge> 3"
  by (cases w n rule: primary_section_cases) (auto simp: advisory_def)

lemma primary_section_not_probed: "\<not> api_probed (snd (primary_section w n))"
  using STREAM_URL_not_endpoint
  by (cases w n rule: primary_section_cases) (auto simp: api_probed_def advisory_def)

lemma iteration_unfold:
  "iteration w n =
     (case fst (primary_section w n) of
        Inl r \<Rightarrow> (Inl r, snd (primary_section w n))
      | Inr k \<Rightarrow>
          (case fst (api_section w) of
             Inl r \<Rightarrow> (Inl r, snd (primary_section w n) @ snd (api_section w))
           | Inr u \<Rightarrow>
               (if sleep_interrupted w then Inl KeyboardInterrupt else Inr k,
                snd (primary_section w n) @ snd (api_section w) @
                [Sleep HEALTH_CHECK_INTERVAL])))"
  by (simp add: iteration_def sleep_section_def split: prod.splits sum.splits)

lemma iteration_result:
  "fst (iteration w n) =
     (if interrupted w then Inl KeyboardInterrupt else fst (primary_section w n))"
proof (cases "fst (primary_section w n)")
  case (Inl r)
  then have "r = KeyboardInterrupt" "urlopen_of w STREAM_URL = Inl KeyboardInterrupt"
    using primary_section_raises [of w n r] by simp_all
  with Inl show ?thesis
    by (simp add: iteration_unfold interrupted_def)
next
  case k: (Inr k)
  then have p: "urlopen_of w STREAM_URL \<noteq> Inl KeyboardInterrupt"
    using primary_section_raises [of w n KeyboardInterrupt] by auto
  show ?thesis
  proof (cases "fst (api_section w)")
    case (Inl r)
    then have "r = KeyboardInterrupt" "api_due (now w)"
      "\<exists>u\<in>set endpoints. urlopen_of w u = Inl KeyboardInterrupt"
      using api_section_raises [of w r] by simp_all
    with Inl k show ?thesis
      by (simp add: iteration_unfold interrupted_def)
  next
    case (Inr u)
    then have "\<not> (api_due (now w) \<and> (\<exists>u\<in>set endpoints. urlopen_of w u = Inl KeyboardInterrupt))"
      using api_section_raises [of w KeyboardInterrupt] by auto
    then show ?thesis
      using k Inr p by (simp add: iteration_unfold interrupted_def)
  qed
qed

lemma iteration_advisory:
  "advisory \<in> set (snd (iteration w n)) \<longleftrightarrow> advisory \<in> set (snd (primary_section w n))"
  using api_section_no_red [of _ w]
  by (auto simp: iteration_unfold advisory_def split: sum.splits)

lemma iteration_probed:
  assumes "urlopen_of w STREAM_URL \<noteq> Inl KeyboardInterrupt"
  shows "api_probed (snd (iteration w n)) \<longleftrightarrow> api_due (now w)"
proof -
  obtain k where k: "fst (primary_section w n) = Inr k"
    using assms primary_section_raises [of w n]
    by (cases "fst (primary_section w n)") auto
  have "api_probed (snd (iteration w n)) \<longleftrightarrow> api_probed (snd (api_section w))"
    using primary_section_not_probed [of w n] k
    by (auto simp: iteration_unfold api_probed_def split: sum.splits)
  then show ?thesis by (simp add: api_section_probed)
qed

lemma monitor_nonneg:
  "0 \<le> n \<Longrightarrow> fst (monitor ws n) = Running k \<Longrightarrow> 0 \<le> k"
proof (induction ws arbitrary: n)
  case Nil
  then show ?case by simp
next
  case (Cons w ws)
  show ?case
  proof (cases "fst (iteration w n)")
    case (Inl r)
    with Cons.prems(2) show ?thesis
      by (cases "iteration w n"; cases r) auto
  next
    case (Inr n')
    then have "fst (primary_section w n) = Inr n'"
      by (simp add: iteration_result split: if_splits)
    then have "0 \<le> n'"
      using Cons.prems(1) by (cases w n rule: primary_section_cases) auto
    moreover have "fst (monitor ws n') = Running k"
      using Cons.prems(2) Inr by (cases "iteration w n") (auto split: prod.splits)
    ultimately show ?thesis by (rule Cons.IH)
  qed
qed

lemma monitor_status:
  "fst (monitor ws n) = Exited 0 \<and> list_ex interrupted ws \<or>
   (\<exists>k. fst (monitor ws n) = Running k) \<and> \<not> list_ex interrupted ws"
proof (induction ws arbitrary: n)
  case Nil
  then show ?case by simp
next
  case (Cons w ws)
  show ?case
  proof (cases "interrupted w")
    case True
    then have "fst (iteration w n) = Inl KeyboardInterrupt"
      by (simp add: iteration_result)
    with True show ?thesis
      by (cases "iteration w n") auto
  next
    case False
    then obtain n' where "fst (iteration w n) = Inr n'"
      using primary_section_raises [of w n]
      by (cases "fst (primary_section w n)") (auto simp: iteration_result interrupted_def)
    then have "fst (monitor (w # ws) n) = fst (monitor ws n')"
      by (cases "iteration w n") (auto split: prod.splits)
    with False Cons.IH [of n'] show ?thesis by simp
  qed
qed

lemma failing_tick_iteration: "fst (iteration failing_tick n) = Inr (n + 1)"
proof -
  have "\<not> interrupted failing_tick"
    by (simp add: interrupted_def failing_tick_def)
  then show ?thesis
    by (cases failing_tick n rule: primary_section_cases)
       (auto simp: iteration_result failing_tick_def)
qed

lemma monitor_replicate:
  "fst (monitor (replicate k failing_tick) n) = Running (n + int k)"
proof (induction k arbitrary: n)
  case 0
  then show ?case by simp
next
  case (Suc k)
  have "fst (monitor (failing_tick # replicate k failing_tick) n) =
        fst (monitor (replicate k failing_tick) (n + 1))"
    using failing_tick_iteration [of n]
    by (cases "iteration failing_tick n") (auto split: prod.splits)
  then show ?case by (simp add: Suc.IH)
qed

text \<open>The loop hands the counter of a pass to the next pass.\<close>

lemma monitor_snoc:
  "fst (monitor ws n) = Running k \<Longrightarrow>
     monitor (ws @ [w]) n =
       (case iteration w k of
          (Inr n', evs) \<Rightarrow> (Running n', snd (monitor ws n) @ evs)
        | (Inl KeyboardInterrupt, evs) \<Rightarrow>
            (Exited 0, snd (monitor ws n) @ evs @ [Print ''Monitoring stopped by user'', Exit 0])
        | (Inl (Exception e), evs) \<Rightarrow> (Exited 1, snd (monitor ws n) @ evs))"
proof (induction ws arbitrary: n)
  case Nil
  then show ?case
    by (auto split: prod.splits sum.splits raised.splits)
next
  case (Cons v ws)
  obtain out evs where it: "iteration v n = (out, evs)" by (cases "iteration v n")
  show ?case
  proof (cases out)
    case (Inl r)
    with Cons.prems it show ?thesis by (cases r) auto
  next
    case (Inr n')
    with Cons.prems it have "fst (monitor ws n') = Running k"
      by (auto split: prod.splits)
    from Cons.IH [OF this] it Inr show ?thesis
      by (auto split: prod.splits sum.splits raised.splits)
  qed
qed

lemma monitor_snoc_status:
  assumes "fst (monitor ws n) = Running k"
  shows "fst (monitor (ws @ [w]) n) =
           (if interrupted w then Exited 0
            else (case fst (primary_section w k) of Inr n' \<Rightarrow> Running n' | Inl r \<Rightarrow> Exited 0))"
    and "snd (monitor (ws @ [w]) n) =
           snd (monitor ws n) @ snd (iteration w k) @
           (if interrupted w then [Print ''Monitoring stopped by user'', Exit 0] else [])"
proof -
  obtain out evs where it: "iteration w k = (out, evs)" by (cases "iteration w k")
  have out: "out = (if interrupted w then Inl KeyboardInterrupt else fst (primary_section w k))"
    using iteration_result [of w k] it by simp
  have no_raise: "\<not> interrupted w \<Longrightarrow> \<exists>n'. fst (primary_section w k) = Inr n'"
    using primary_section_raises [of w k]
    by (cases "fst (primary_section w k)") (auto simp: interrupted_def)
  show "fst (monitor (ws @ [w]) n) =
           (if interrupted w then Exited 0
            else (case fst (primary_section w k) of Inr n' \<Rightarrow> Running n' | Inl r \<Rightarrow> Exited 0))"
    using no_raise by (auto simp: monitor_snoc [OF assms] it out)
  show "snd (monitor (ws @ [w]) n) =
           snd (monitor ws n) @ snd (iteration w k) @
           (if interrupted w then [Print ''Monitoring stopped by user'', Exit 0] else [])"
    using no_raise by (auto simp: monitor_snoc [OF assms] it out)
qed

lemma primary_section_counter:
  "fst (check_stream_accessible (urlopen_of w)) = Inr (True, m) \<Longrightarrow>
     fst (primary_section w n) = Inr 0"
  "fst (check_stream_accessible (urlopen_of w)) = Inr (False, m) \<Longrightarrow>
     fst (primary_section w n) = Inr (n + 1)"
  by (cases "check_stream_accessible (urlopen_of w)"; simp add: primary_section_def Let_def)+

subsection \<open>Evaluation at the examples\<close>

lemma str_int_examples:
  "str_int 404 = ''404''" "str_int 503 = ''503''" "str_int 30 = ''30''" "str_int 8 = ''8''"
  by (simp_all add: str_int_def str_nat.simps digit_char_def)

lemma floor_examples:
  "\<lfloor>(70::rat) / 60\<rfloor> = 1" "\<lfloor>(45::rat) / 60\<rfloor> = 0" "\<lfloor>(30::rat) / 60\<rfloor> = 0"
  by (simp_all add: floor_eq_iff)

lemma api_due_examples: "api_due 70" "\<not> api_due 45" "\<not> api_due 30"
  unfolding api_due_def float_mod_def HEALTH_CHECK_INTERVAL_def
  using floor_examples by simp_all

subsection \<open>Properties of the stream health checker\<close>

text \<open>
  Claim C2, as the code has it. The primary probe answers \<open>True\<close> for a response of
  status 200. For a response of any other status it answers \<open>False\<close> with a message that
  ends in the status code. For a \<open>URLError\<close> and for any other \<open>Exception\<close> raised by the
  request it answers \<open>False\<close> with a message that ends in the whole text of the exception:
  \<open>check_stream_accessible\<close> does not cut the text.
\<close>

theorem check_stream_accessible_classifies:
  "(urlopen STREAM_URL = Inr 200 \<longrightarrow>
      fst (check_stream_accessible urlopen) = Inr (True, ''Stream page is accessible'')) \<and>
   (\<forall>status. status \<noteq> 200 \<and> urlopen STREAM_URL = Inr status \<longrightarrow>
      fst (check_stream_accessible urlopen) =
        Inr (False, ''Stream returned status '' @ str_int status)) \<and>
   (\<forall>m. urlopen STREAM_URL = Inl (Exception (URLError m)) \<longrightarrow>
      fst (check_stream_accessible urlopen) = Inr (False, ''Cannot connect to stream: '' @ m)) \<and>
   (\<forall>m. urlopen STREAM_URL = Inl (Exception (OtherException m)) \<longrightarrow>
      fst (check_stream_accessible urlopen) = Inr (False, ''Error checking stream: '' @ m))"
  by (simp add: check_stream_accessible_def)

text \<open>The four cases of C2 at a response of 200, one of 404 and two failures.\<close>

theorem check_stream_accessible_classifies_witness:
  "fst (check_stream_accessible (\<lambda>url. Inr 200)) = Inr (True, ''Stream page is accessible'') \<and>
   fst (check_stream_accessible (\<lambda>url. Inr 404)) = Inr (False, ''Stream returned status 404'') \<and>
   fst (check_stream_accessible (\<lambda>url. Inl (Exception (URLError long_error)))) =
     Inr (False, ''Cannot connect to stream: '' @ long_error) \<and>
   fst (check_stream_accessible (\<lambda>url. Inl (Exception (OtherException ''timed out'')))) =
     Inr (False, ''Error checking stream: timed out'')"
  using check_stream_accessible_classifies [of "\<lambda>url. Inr 200"]
    check_stream_accessible_classifies [of "\<lambda>url. Inr 404"]
    check_stream_accessible_classifies [of "\<lambda>url. Inl (Exception (URLError long_error))"]
    check_stream_accessible_classifies [of "\<lambda>url. Inl (Exception (OtherException ''timed out''))"]
  by (simp add: str_int_examples)

text \<open>
  Claim C2 as stated has the text of a network failure truncated in the message. For a
  failure whose text has 70 characters the message carries all 70 of them after its
  prefix, while the text cut to 50 characters, as \<open>check_api_endpoints\<close> cuts it, is
  a different string.
\<close>

theorem check_stream_accessible_not_truncated:
  "fst (check_stream_accessible (\<lambda>url. Inl (Exception (URLError long_error)))) =
     Inr (False, ''Cannot connect to stream: '' @ long_error) \<and>
   length long_error = 70 \<and> take 50 long_error \<noteq> long_error"
  by (simp add: check_stream_accessible_def long_error_def)

text \<open>
  Claim C3. In a pass of the loop the counter becomes 0 when the primary probe answers
  \<open>True\<close> and grows by exactly 1 when it answers \<open>False\<close>; the advisory line is among
  the lines of the pass if and only if the counter's value in that pass is at least 3.
  Started at 0 as \<open>main\<close> starts it, the counter is never negative, and every natural
  number is its value after some run. The loop carries the counter from pass to pass:
  after a run that left the counter at \<open>k\<close>, a further pass is run with \<open>k\<close>, its lines
  follow those of the run, and, unless the operator interrupts it, the loop goes on with
  counter 0 after an OK result and with \<open>k + 1\<close> after an ERROR result.
\<close>

theorem consecutive_failures_counter:
  "(\<forall>m. fst (check_stream_accessible (urlopen_of w)) = Inr (True, m) \<longrightarrow>
      fst (primary_section w n) = Inr 0) \<and>
   (\<forall>m. fst (check_stream_accessible (urlopen_of w)) = Inr (False, m) \<longrightarrow>
      fst (primary_section w n) = Inr (n + 1)) \<and>
   (\<forall>n'. fst (primary_section w n) = Inr n' \<longrightarrow>
      (advisory \<in> set (snd (iteration w n)) \<longleftrightarrow> 3 \<le> n')) \<and>
   (\<forall>ws k. fst (monitor ws 0) = Running k \<longrightarrow> 0 \<le> k) \<and>
   (\<forall>k. \<exists>ws. fst (monitor ws 0) = Running (int k)) \<and>
   (\<forall>ws k. fst (monitor ws 0) = Running k \<longrightarrow>
      snd (monitor (ws @ [w]) 0) =
        snd (monitor ws 0) @ snd (iteration w k) @
        (if interrupted w then [Print ''Monitoring stopped by user'', Exit 0] else []) \<and>
      (\<forall>m. fst (check_stream_accessible (urlopen_of w)) = Inr (True, m) \<and> \<not> interrupted w \<longrightarrow>
         fst (monitor (ws @ [w]) 0) = Running 0) \<and>
      (\<forall>m. fst (check_stream_accessible (urlopen_of w)) = Inr (False, m) \<and> \<not> interrupted w \<longrightarrow>
         fst (monitor (ws @ [w]) 0) = Running (k + 1)))"
proof (intro conjI allI impI)
  fix m assume "fst (check_stream_accessible (urlopen_of w)) = Inr (True, m)"
  then show "fst (primary_section w n) = Inr 0"
    by (rule primary_section_counter)
next
  fix m assume "fst (check_stream_accessible (urlopen_of w)) = Inr (False, m)"
  then show "fst (primary_section w n) = Inr (n + 1)"
    by (rule primary_section_counter)
next
  fix n' assume "fst (primary_section w n) = Inr n'"
  then show "advisory \<in> set (snd (iteration w n)) \<longleftrightarrow> 3 \<le> n'"
    by (simp add: iteration_advisory primary_section_advisory)
next
  fix ws k assume "fst (monitor ws 0) = Running k"
  then show "0 \<le> k" using monitor_nonneg [of 0 ws k] by simp
next
  fix k
  show "\<exists>ws. fst (monitor ws 0) = Running (int k)"
    using monitor_replicate [of k 0] by (intro exI [of _ "replicate k failing_tick"]) simp
next
  fix ws k assume "fst (monitor ws 0) = Running k"
  then show "snd (monitor (ws @ [w]) 0) =
        snd (monitor ws 0) @ snd (iteration w k) @
        (if interrupted w then [Print ''Monitoring stopped by user'', Exit 0] else [])"
    by (rule monitor_snoc_status)
next
  fix ws k m
  assume run: "fst (monitor ws 0) = Running k"
    and "fst (check_stream_accessible (urlopen_of w)) = Inr (True, m) \<and> \<not> interrupted w"
  then have "fst (primary_section w k) = Inr 0" "\<not> interrupted w"
    using primary_section_counter(1) [of w m k] by simp_all
  then show "fst (monitor (ws @ [w]) 0) = Running 0"
    by (simp add: monitor_snoc_status(1) [OF run])
next
  fix ws k m
  assume run: "fst (monitor ws 0) = Running k"
    and "fst (check_stream_accessible (urlopen_of w)) = Inr (False, m) \<and> \<not> interrupted w"
  then have "fst (primary_section w k) = Inr (k + 1)" "\<not> interrupted w"
    using primary_section_counter(2) [of w m k] by simp_all
  then show "fst (monitor (ws @ [w]) 0) = Running (k + 1)"
    by (simp add: monitor_snoc_status(1) [OF run])
qed

text \<open>
  C3 on the loop itself: two failing passes leave the counter at 1 and then 2, a success
  after them at 0 and a third failure at 3; the lines of the third pass follow those of
  the first two, and of the passes only the third failure in a row prints the advisory.
\<close>

theorem consecutive_failures_counter_witness:
  "fst (monitor [failing_tick] 0) = Running 1 \<and>
   fst (monitor [failing_tick, failing_tick] 0) = Running 2 \<and>
   fst (monitor [failing_tick, failing_tick, healthy_tick] 0) = Running 0 \<and>
   fst (monitor [failing_tick, failing_tick, failing_tick] 0) = Running 3 \<and>
   snd (monitor [failing_tick, failing_tick, failing_tick] 0) =
     snd (monitor [failing_tick, failing_tick] 0) @ snd (iteration failing_tick 2) \<and>
   advisory \<notin> set (snd (iteration failing_tick 0)) \<and>
   advisory \<notin> set (snd (iteration failing_tick 1)) \<and>
   advisory \<notin> set (snd (iteration healthy_tick 2)) \<and>
   advisory \<in> set (snd (iteration failing_tick 2))"
proof -
  note loop = consecutive_failures_counter [THEN conjunct2, THEN conjunct2, THEN conjunct2, THEN conjunct2,
      THEN conjunct2, rule_format]
  note trace = loop [THEN conjunct1]
  note reset = loop [THEN conjunct2, THEN conjunct1, rule_format]
  note count = loop [THEN conjunct2, THEN conjunct2, rule_format]
  note pass = consecutive_failures_counter [THEN conjunct2, THEN conjunct2, THEN conjunct1, rule_format]
  note up = consecutive_failures_counter [THEN conjunct2, THEN conjunct1, rule_format]
  note down = consecutive_failures_counter [THEN conjunct1, rule_format]
  have ok: "fst (check_stream_accessible (urlopen_of healthy_tick)) =
              Inr (True, ''Stream page is accessible'')"
    by (simp add: check_stream_accessible_def healthy_tick_def)
  have err: "fst (check_stream_accessible (urlopen_of failing_tick)) =
               Inr (False, ''Stream returned status 503'')"
    by (simp add: check_stream_accessible_def failing_tick_def str_int_examples)
  have i: "\<not> interrupted failing_tick" "\<not> interrupted healthy_tick"
    by (simp_all add: interrupted_def failing_tick_def healthy_tick_def)
  have r0: "fst (monitor [] 0) = Running 0" by simp
  have r1: "fst (monitor [failing_tick] 0) = Running 1"
    using count [of "[]" 0 failing_tick, OF r0 conjI [OF err i(1)]] by simp
  have r2: "fst (monitor [failing_tick, failing_tick] 0) = Running 2"
    using count [of "[failing_tick]" 1 failing_tick, OF r1 conjI [OF err i(1)]] by simp
  have r3: "fst (monitor [failing_tick, failing_tick, healthy_tick] 0) = Running 0"
    using reset [of "[failing_tick, failing_tick]" 2 healthy_tick, OF r2 conjI [OF ok i(2)]]
    by simp
  have r4: "fst (monitor [failing_tick, failing_tick, failing_tick] 0) = Running 3"
    using count [of "[failing_tick, failing_tick]" 2 failing_tick, OF r2 conjI [OF err i(1)]]
    by simp
  have t: "snd (monitor [failing_tick, failing_tick, failing_tick] 0) =
     snd (monitor [failing_tick, failing_tick] 0) @ snd (iteration failing_tick 2)"
    using trace [of "[failing_tick, failing_tick]" 2 failing_tick, OF r2] i(1) by simp
  have a0: "advisory \<notin> set (snd (iteration failing_tick 0))"
    using pass [of failing_tick 0, OF up [of failing_tick _ 0, OF err]] by simp
  have a1: "advisory \<notin> set (snd (iteration failing_tick 1))"
    using pass [of failing_tick 1, OF up [of failing_tick _ 1, OF err]] by simp
  have a2: "advisory \<notin> set (snd (iteration healthy_tick 2))"
    using pass [of healthy_tick 2, OF down [of healthy_tick _ 2, OF ok]] by simp
  have a3: "advisory \<in> set (snd (iteration failing_tick 2))"
    using pass [of failing_tick 2, OF up [of failing_tick _ 2, OF err]] by simp
  from r1 r2 r3 r4 t a0 a1 a2 a3 show ?thesis by blast
qed

text \<open>
  Claim C4. In a pass whose primary probe returns, whatever it returns and whatever the
  counter is, the API endpoints are requested if and only if the clock reading modulo
  \<open>2 * HEALTH_CHECK_INTERVAL\<close> is below \<open>HEALTH_CHECK_INTERVAL\<close>; so two passes at
  the same clock reading request them both or neither.
\<close>

theorem api_probe_gate:
  assumes "urlopen_of w STREAM_URL \<noteq> Inl KeyboardInterrupt"
  shows "(api_probed (snd (iteration w n)) \<longleftrightarrow>
            float_mod (now w) (of_int (HEALTH_CHECK_INTERVAL * 2)) < of_int HEALTH_CHECK_INTERVAL) \<and>
         (\<forall>w' n'. now w' = now w \<and> urlopen_of w' STREAM_URL \<noteq> Inl KeyboardInterrupt \<longrightarrow>
            api_probed (snd (iteration w' n')) = api_probed (snd (iteration w n)))"
  using assms by (simp add: iteration_probed api_due_def)

text \<open>
  C4 at clock reading 70 (due) with a refused and with a successful primary probe, and at
  clock reading 45 (not due) with a successful and with a failing one.
\<close>

theorem api_probe_gate_witness:
  "api_probed (snd (iteration refused_tick 0)) \<and>
   api_probed (snd (iteration (refused_tick\<lparr>urlopen_of := (\<lambda>url. Inr 200)\<rparr>) 5)) \<and>
   \<not> api_probed (snd (iteration healthy_tick 0)) \<and>
   \<not> api_probed (snd (iteration (healthy_tick\<lparr>urlopen_of := (\<lambda>url. Inr 503)\<rparr>) 5))"
proof -
  have a: "urlopen_of refused_tick STREAM_URL \<noteq> Inl KeyboardInterrupt"
    by (simp add: refused_tick_def)
  have b: "urlopen_of healthy_tick STREAM_URL \<noteq> Inl KeyboardInterrupt"
    by (simp add: healthy_tick_def)
  have due: "float_mod (now refused_tick) (of_int (HEALTH_CHECK_INTERVAL * 2)) < of_int HEALTH_CHECK_INTERVAL"
    using api_due_examples(1) by (simp add: api_due_def refused_tick_def)
  have not_due: "\<not> float_mod (now healthy_tick) (of_int (HEALTH_CHECK_INTERVAL * 2)) < of_int HEALTH_CHECK_INTERVAL"
    using api_due_examples(2) by (simp add: api_due_def healthy_tick_def)
  show ?thesis
    using api_probe_gate [OF a, of 0] api_probe_gate [OF b, of 0] due not_due
    by simp
qed

text \<open>
  Claim C5. When no request is interrupted by the operator, \<open>check_api_endpoints\<close> returns
  a mapping whose keys are the URLs of its list, in order, and the entry of each URL is
  determined by the outcome of the request to that URL alone: \<open>OK\<close> for status 200, the
  status for another one, and for an exception its text cut to 50 characters.
\<close>

theorem check_api_endpoints_independent:
  assumes "\<forall>u\<in>set endpoints. urlopen u \<noteq> Inl KeyboardInterrupt"
  shows "\<exists>results.
           fst (check_api_endpoints urlopen) = Inr results \<and>
           map fst results = endpoints \<and>
           (\<forall>u\<in>set endpoints.
              map_of results u =
                (case urlopen u of
                   Inr status \<Rightarrow> Some (if status = 200 then ''OK'' else ''Status '' @ str_int status)
                 | Inl (Exception e) \<Rightarrow> Some (''Error: '' @ take 50 (str_exception e))
                 | Inl KeyboardInterrupt \<Rightarrow> None))"
proof -
  let ?val = "\<lambda>u. projr (probe_endpoint (urlopen u))"
  let ?results = "map (\<lambda>u. (u, ?val u)) endpoints"
  have run: "check_api_endpoints urlopen = (Inr ?results, map Get endpoints)"
    using api_loop_returns [OF assms distinct_endpoints, of "[]"]
    by (simp add: check_api_endpoints_def)
  have keys: "map fst ?results = endpoints"
    by (simp add: comp_def)
  have entry: "map_of ?results u =
                (case urlopen u of
                   Inr status \<Rightarrow> Some (if status = 200 then ''OK'' else ''Status '' @ str_int status)
                 | Inl (Exception e) \<Rightarrow> Some (''Error: '' @ take 50 (str_exception e))
                 | Inl KeyboardInterrupt \<Rightarrow> None)"
    if "u \<in> set endpoints" for u
  proof -
    have "map_of ?results u = Some (?val u)"
      using that by (simp add: map_of_map_restrict)
    moreover have "urlopen u \<noteq> Inl KeyboardInterrupt"
      using assms that by blast
    ultimately show ?thesis
      by (auto simp: probe_endpoint_def split: sum.splits raised.splits)
  qed
  show ?thesis
    using run keys entry by (intro exI [of _ ?results]) simp
qed

text \<open>
  C5 where the first endpoint fails with a text of 70 characters and the second answers
  200: the first entry holds 50 characters of the text, the second is \<open>OK\<close>.
\<close>

theorem check_api_endpoints_independent_witness:
  "\<exists>results.
     fst (check_api_endpoints flaky_api) = Inr results \<and>
     map fst results = endpoints \<and>
     map_of results ''http://localhost:5173/api/space-weather/comprehensive'' =
       Some ''Error: <urlopen error [Errno 8] nodename nor servname pro'' \<and>
     map_of results ''http://localhost:5173/api/solar-wind/current'' = Some ''OK''"
proof -
  have "\<forall>u\<in>set endpoints. flaky_api u \<noteq> Inl KeyboardInterrupt"
    by (simp add: flaky_api_def endpoints_def)
  from check_api_endpoints_independent [OF this]
  obtain results where r: "fst (check_api_endpoints flaky_api) = Inr results"
    "map fst results = endpoints"
    "\<forall>u\<in>set endpoints.
       map_of results u =
         (case flaky_api u of
            Inr status \<Rightarrow> Some (if status = 200 then ''OK'' else ''Status '' @ str_int status)
          | Inl (Exception e) \<Rightarrow> Some (''Error: '' @ take 50 (str_exception e))
          | Inl KeyboardInterrupt \<Rightarrow> None)"
    by blast
  from r(3) have
    "map_of results ''http://localhost:5173/api/space-weather/comprehensive'' =
       Some ''Error: <urlopen error [Errno 8] nodename nor servname pro''"
    "map_of results ''http://localhost:5173/api/solar-wind/current'' = Some ''OK''"
    by (simp_all add: endpoints_def flaky_api_def long_error_def)
  with r(1,2) show ?thesis by blast
qed

text \<open>
  Claim C8. Whatever the probes return or raise, the loop goes on to the next pass: after
  any finite run of passes none of which was interrupted by the operator the process is
  still in the loop, and a run with an interrupted pass ends with exit status 0. No other
  exit status occurs.
\<close>

theorem monitor_stops_only_on_interrupt:
  "(list_ex interrupted ws \<longrightarrow> fst (main_monitor ws) = Exited 0) \<and>
   (\<not> list_ex interrupted ws \<longrightarrow> (\<exists>k. fst (main_monitor ws) = Running k))"
  using monitor_status [of ws 0]
  by (auto simp: main_monitor_def split: prod.splits)

text \<open>
  C8 on a run of failing and successful passes with an interrupt in the fourth, and on a
  run without an interrupt.
\<close>

theorem monitor_stops_only_on_interrupt_witness:
  "fst (main_monitor [failing_tick, refused_tick, healthy_tick, stopped_tick, healthy_tick]) = Exited 0 \<and>
   (\<exists>k. fst (main_monitor [failing_tick, refused_tick, failing_tick, healthy_tick]) = Running k)"
proof -
  have i: "\<not> interrupted failing_tick" "\<not> interrupted refused_tick" "\<not> interrupted healthy_tick"
    "interrupted stopped_tick"
    by (simp_all add: interrupted_def failing_tick_def refused_tick_def healthy_tick_def
        stopped_tick_def)
  show ?thesis
    using monitor_stops_only_on_interrupt
            [of "[failing_tick, refused_tick, healthy_tick, stopped_tick, healthy_tick]"]
          monitor_stops_only_on_interrupt
            [of "[failing_tick, refused_tick, failing_tick, healthy_tick]"]
    by (simp add: i)
qed

section \<open>Properties of the OBS setup helper\<close>

subsection \<open>The loop over the checks and the report\<close>

lemma run_checks_results:
  assumes "distinct (map fst cs)" "fst ` set cs \<inter> fst ` set results = {}"
  shows "fst (run_checks cs results) = results @ map (\<lambda>(name, c). (name, recorded c)) cs"
  using assms
proof (induction cs arbitrary: results)
  case Nil
  then show ?case by simp
next
  case (Cons nc cs)
  obtain name c where nc: "nc = (name, c)" by (cases nc)
  have fresh: "name \<notin> fst ` set results" using Cons.prems(2) nc by auto
  let ?r = "dict_set results name (recorded c)"
  have r: "?r = results @ [(name, recorded c)]" by (rule dict_set_fresh [OF fresh])
  have "fst ` set cs \<inter> fst ` set ?r = {}"
    using Cons.prems nc by (auto simp: r)
  with Cons.IH [of ?r] Cons.prems(1)
  have ih: "fst (run_checks cs ?r) = ?r @ map (\<lambda>(name, c). (name, recorded c)) cs" by simp
  have "fst (run_checks (nc # cs) results) = fst (run_checks cs ?r)"
    by (cases c; cases "fst c")
       (auto simp: nc recorded_def split: prod.splits sum.splits)
  with ih r show ?case by (simp add: nc)
qed

lemma run_checks_step:
  "run_checks ((name, c) # cs) results =
     (fst (run_checks cs (dict_set results name (recorded c))),
      Plain (''Checking: '' @ name) # snd c @
      (case fst c of
         Inl x \<Rightarrow> [Error (''Error checking '' @ name @ '': '' @ str_exception x)]
       | Inr v \<Rightarrow> []) @
      snd (run_checks cs (dict_set results name (recorded c))))"
  by (cases c; cases "fst c") (auto simp: recorded_def split: prod.splits)

lemma run_checks_lines:
  "(name, c) \<in> set cs \<Longrightarrow>
     Plain (''Checking: '' @ name) \<in> set (snd (run_checks cs results)) \<and>
     set (snd c) \<subseteq> set (snd (run_checks cs results)) \<and>
     (\<forall>x. fst c = Inl x \<longrightarrow>
        Error (''Error checking '' @ name @ '': '' @ str_exception x)
          \<in> set (snd (run_checks cs results)))"
proof (induction cs arbitrary: results)
  case Nil
  then show ?case by simp
next
  case (Cons nc cs)
  obtain name' c' where nc: "nc = (name', c')" by (cases nc)
  show ?case
  proof (cases "(name, c) = nc")
    case True
    then have "name' = name" "c' = c" using nc by simp_all
    then show ?thesis
      unfolding nc run_checks_step by auto
  next
    case False
    with Cons.prems have "(name, c) \<in> set cs" by simp
    from Cons.IH [OF this, of "dict_set results name' (recorded c')"] show ?thesis
      unfolding nc run_checks_step by auto
  qed
qed

lemma run_checks_only:
  "l \<in> set (snd (run_checks cs results)) \<Longrightarrow>
     (\<exists>c\<in>snd ` set cs. l \<in> set (snd c)) \<or> (\<exists>t. l = Plain t) \<or> (\<exists>t. l = Error t)"
proof (induction cs arbitrary: results)
  case Nil
  then show ?case by simp
next
  case (Cons nc cs)
  obtain name' c' where nc: "nc = (name', c')" by (cases nc)
  from Cons.prems consider "l = Plain (''Checking: '' @ name')" | "l \<in> set (snd c')"
    | "\<exists>t. l = Error t"
    | "l \<in> set (snd (run_checks cs (dict_set results name' (recorded c'))))"
    unfolding nc run_checks_step by (auto split: sum.splits)
  then show ?case
  proof cases
    case 4
    from Cons.IH [OF this] show ?thesis by (auto simp: nc)
  qed (auto simp: nc)
qed

lemma distinct_check_names: "distinct (map fst (checks e))"
  by (simp add: checks_def)

lemma main_fields:
  "results_of (main e files) = fst (run_checks (checks e) [])"
  "files_of (main e files) = snd (template_section e files)"
  by (simp_all add: main_def split: prod.splits)

lemma main_results:
  "results_of (main e files) = map (\<lambda>(name, c). (name, recorded c)) (checks e)"
  using run_checks_results [OF distinct_check_names, of e "[]"]
  by (simp add: main_fields)

lemma check_system_resources_none: "fst (check_system_resources e) = Inr PNone"
  by (simp add: check_system_resources_def split: prod.splits option.splits)

lemma main_results_unfolded:
  "results_of (main e files) =
     [(''OBS Installation'', recorded (check_obs_installed e)),
      (''Hardware Encoding'', recorded (check_hardware_encoding e)),
      (''Dev Server'', recorded (check_dev_server e)),
      (''OBS Configuration'', recorded (check_obs_config e)),
      (''System Resources'', PNone)]"
  by (simp add: main_results checks_def recorded_def check_system_resources_none)

lemma main_printed:
  "printed (main e files) =
     print_header ''Heliosinger OBS Setup Helper'' @
     [Plain ''Checking system requirements...''] @ snd (run_checks (checks e) []) @
     fst (template_section e files) @ print_setup_instructions @ print_troubleshooting @
     summary (results_of (main e files)) @
     [Plain (replicate 60 CHR ''=''), Plain ''Quick Start:'',
      Plain ''  1. Run: ./scripts/helio-stream.sh'',
      Plain ''  2. Configure OBS as shown above'',
      Plain ''  3. Start streaming!'', Plain (replicate 60 CHR ''='')]"
  by (simp add: main_def split: prod.splits)

lemma main_summary:
  "summary (results_of (main e files)) =
     [Header ''Setup Summary'', some_failed_line,
      Info ''Run this script again after fixing issues.'']"
  by (simp add: main_results_unfolded summary_def print_header_def some_failed_line_def)

lemma find_obs_lines: "all_passed_line \<notin> set (snd (find_obs ex ps))"
  by (induction ps) (auto simp: all_passed_line_def)

lemma installed_lines: "all_passed_line \<notin> set (snd (check_obs_installed e))"
  by (simp add: check_obs_installed_def find_obs_lines)

lemma hardware_lines: "all_passed_line \<notin> set (snd (check_hardware_encoding e))"
  by (simp add: check_hardware_encoding_def all_passed_line_def split: sum.splits)

lemma dev_server_lines: "all_passed_line \<notin> set (snd (check_dev_server e))"
  by (simp add: check_dev_server_def all_passed_line_def split: sum.splits)

lemma config_lines: "all_passed_line \<notin> set (snd (check_obs_config e))"
  by (simp add: check_obs_config_def all_passed_line_def split: sum.splits bool.splits)

lemma step_lines:
  "all_passed_line \<notin> set (snd (cpu_step e))"
  "all_passed_line \<notin> set (snd (memory_step e))"
  "all_passed_line \<notin> set (snd (caffeinate_step e))"
  by (simp_all add: cpu_step_def memory_step_def caffeinate_step_def all_passed_line_def
      split: sum.splits prod.splits)

lemma resources_body_lines: "all_passed_line \<notin> set (snd (resources_body e))"
  using step_lines [of e]
  by (cases "cpu_step e"; cases "memory_step e"; cases "caffeinate_step e")
     (auto simp: resources_body_def split: option.splits)

lemma resources_lines: "all_passed_line \<notin> set (snd (check_system_resources e))"
  using resources_body_lines [of e]
  by (cases "resources_body e")
     (auto simp: check_system_resources_def all_passed_line_def split: option.splits)

lemma check_lines: "c \<in> snd ` set (checks e) \<Longrightarrow> all_passed_line \<notin> set (snd c)"
  using installed_lines [of e] hardware_lines [of e] dev_server_lines [of e]
    config_lines [of e] resources_lines [of e]
  by (auto simp: checks_def)

lemma template_lines: "all_passed_line \<notin> set (fst (template_section e files))"
  by (auto simp: template_section_def generate_obs_settings_template_def all_passed_line_def
      split: option.splits)

lemma main_never_all_passed: "all_passed_line \<notin> set (printed (main e files))"
proof
  assume "all_passed_line \<in> set (printed (main e files))"
  then have "all_passed_line \<in> set (snd (run_checks (checks e) []))"
    using template_lines [of e files]
    by (auto simp: main_printed main_summary print_header_def print_setup_instructions_def
        print_troubleshooting_def all_passed_line_def some_failed_line_def)
  from run_checks_only [OF this] check_lines [of _ e] show False
    by (auto simp: all_passed_line_def)
qed

lemma run_checks_trace:
  "snd (run_checks cs results) = concat (map reported cs)"
proof (induction cs arbitrary: results)
  case Nil
  then show ?case by simp
next
  case (Cons nc cs)
  obtain name c where nc: "nc = (name, c)" by (cases nc)
  show ?case
    unfolding nc run_checks_step by (simp add: Cons.IH reported_def)
qed

lemma recorded_lookup:
  assumes "distinct (map fst cs)" "(name, c) \<in> set cs"
  shows "map_of (map (\<lambda>(name, c). (name, recorded c)) cs) name = Some (recorded c)"
proof -
  have "distinct (map fst (map (\<lambda>(name, c). (name, recorded c)) cs))"
    using assms(1) by (simp add: comp_def case_prod_unfold)
  moreover have "(name, recorded c) \<in> set (map (\<lambda>(name, c). (name, recorded c)) cs)"
    using assms(2) by force
  ultimately show ?thesis by (rule map_of_is_SomeI)
qed

subsection \<open>The claims on the helper\<close>

text \<open>
  Claim C10. \<open>check_dev_server\<close> returns \<open>True\<close> if and only if \<open>connect_ex\<close> gives 0 and
  the GET of \<open>/stream\<close> gives a response of status 200. When the socket connects and the
  GET gives a response of any other status, the function ends without a \<open>return\<close>: it
  hands back \<open>None\<close> and has printed nothing.
\<close>

theorem check_dev_server_result:
  "(fst (check_dev_server e) = Inr (PBool True) \<longleftrightarrow>
      connect_ex e = Inr 0 \<and> urlopen_stream e = Inr 200) \<and>
   (\<forall>status. connect_ex e = Inr 0 \<and> urlopen_stream e = Inr status \<and> status \<noteq> 200 \<longrightarrow>
      check_dev_server e = (Inr PNone, []))"
  by (auto simp: check_dev_server_def split: sum.splits)

text \<open>
  C10 where the server answers 200, where it answers 204 (\<open>None\<close>, no line), and where
  the connection is refused.
\<close>

theorem check_dev_server_result_witness:
  "fst (check_dev_server ready_env) = Inr (PBool True) \<and>
   check_dev_server (ready_env\<lparr>urlopen_stream := Inr 204\<rparr>) = (Inr PNone, []) \<and>
   fst (check_dev_server (ready_env\<lparr>connect_ex := Inr 61\<rparr>)) \<noteq> Inr (PBool True)"
  using check_dev_server_result [of ready_env]
    check_dev_server_result [of "ready_env\<lparr>urlopen_stream := Inr 204\<rparr>"]
    check_dev_server_result [of "ready_env\<lparr>connect_ex := Inr 61\<rparr>"]
  by (simp add: ready_env_def)

text \<open>
  Claim C9. \<open>check_system_resources\<close> hands back \<open>None\<close> on every execution, so the
  entry \<open>System Resources\<close> of the results is \<open>None\<close>, which is no boolean and is
  falsy; \<open>all(results.values())\<close> is therefore false on every run, the summary
  \<open>All checks passed\<close> is never printed and \<open>Some checks failed\<close> always is.
\<close>

theorem system_resources_never_passes:
  "fst (check_system_resources e) = Inr PNone \<and>
   map_of (results_of (main e files)) ''System Resources'' = Some PNone \<and>
   \<not> truthy PNone \<and>
   \<not> list_all truthy (map snd (results_of (main e files))) \<and>
   all_passed_line \<notin> set (printed (main e files)) \<and>
   some_failed_line \<in> set (printed (main e files))"
proof (intro conjI)
  show "fst (check_system_resources e) = Inr PNone"
    by (rule check_system_resources_none)
  show "map_of (results_of (main e files)) ''System Resources'' = Some PNone"
    by (simp add: main_results_unfolded)
  show "\<not> truthy PNone" by simp
  show "\<not> list_all truthy (map snd (results_of (main e files)))"
    by (simp add: main_results_unfolded)
  show "all_passed_line \<notin> set (printed (main e files))"
    by (rule main_never_all_passed)
  show "some_failed_line \<in> set (printed (main e files))"
    by (simp add: main_printed main_summary)
qed

text \<open>C9 on the machine on which every other check succeeds.\<close>

theorem system_resources_never_passes_witness:
  "fst (check_system_resources ready_env) = Inr PNone \<and>
   map_of (results_of (main ready_env Map.empty)) ''System Resources'' = Some PNone \<and>
   all_passed_line \<notin> set (printed (main ready_env Map.empty)) \<and>
   some_failed_line \<in> set (printed (main ready_env Map.empty))"
  using system_resources_never_passes [of ready_env Map.empty] by simp

lemma ready_checks:
  "check_obs_installed ready_env =
     (Inr (PBool True), [Success ''OBS Studio found at: /Applications/OBS.app''])"
  "fst (check_hardware_encoding ready_env) = Inr (PBool True)"
  "fst (check_dev_server ready_env) = Inr (PBool True)"
  "fst (check_obs_config ready_env) = Inr (PBool True)"
  by (simp_all add: check_obs_installed_def obs_paths_def check_hardware_encoding_def
      check_dev_server_def check_obs_config_def ready_env_def)

text \<open>
  Claim C1 has the summary \<open>All checks passed\<close> printed whenever every check other than
  the resource inventory returned \<open>True\<close>. On the machine \<open>ready_env\<close> the four other
  checks return \<open>True\<close>, the results hold \<open>None\<close> for \<open>System Resources\<close>, and the
  summary printed is \<open>Some checks failed\<close>.
\<close>

theorem ready_machine_reported_failed:
  "results_of (main ready_env Map.empty) =
     [(''OBS Installation'', PBool True), (''Hardware Encoding'', PBool True),
      (''Dev Server'', PBool True), (''OBS Configuration'', PBool True),
      (''System Resources'', PNone)] \<and>
   summary (results_of (main ready_env Map.empty)) =
     [Header ''Setup Summary'', Warning ''Some checks failed. Review the issues above.'',
      Info ''Run this script again after fixing issues.'']"
  by (simp add: main_results_unfolded recorded_def ready_checks summary_def print_header_def)

text \<open>
  Claim C7. When a check raises an exception, \<open>main\<close> records \<open>False\<close> for it, prints
  the line \<open>Error checking\<close> with the check's name and the exception's text, and goes on:
  every check of the list is run and reported in order, whatever the checks before it did,
  and the summary is printed after them. This holds of the loop on any list of checks with
  distinct names, and of \<open>main\<close> on its five checks.
\<close>

theorem check_exceptions_recorded:
  "(distinct (map fst cs) \<longrightarrow>
      run_checks cs [] = (map (\<lambda>(name, c). (name, recorded c)) cs, concat (map reported cs)) \<and>
      (\<forall>name c x. (name, c) \<in> set cs \<and> fst c = Inl x \<longrightarrow>
         map_of (fst (run_checks cs [])) name = Some (PBool False) \<and>
         Error (''Error checking '' @ name @ '': '' @ str_exception x)
           \<in> set (snd (run_checks cs [])))) \<and>
   results_of (main e files) = map (\<lambda>(name, c). (name, recorded c)) (checks e) \<and>
   (\<forall>name c x. (name, c) \<in> set (checks e) \<and> fst c = Inl x \<longrightarrow>
      map_of (results_of (main e files)) name = Some (PBool False) \<and>
      Error (''Error checking '' @ name @ '': '' @ str_exception x) \<in> set (printed (main e files))) \<and>
   (\<exists>before between after.
      printed (main e files) =
        before @ concat (map reported (checks e)) @ between @
        summary (results_of (main e files)) @ after)"
proof (intro conjI impI allI)
  assume d: "distinct (map fst cs)"
  show "run_checks cs [] = (map (\<lambda>(name, c). (name, recorded c)) cs, concat (map reported cs))"
    using run_checks_results [OF d, of "[]"] run_checks_trace [of cs "[]"]
    by (cases "run_checks cs []") simp
next
  fix name c x
  assume d: "distinct (map fst cs)" and h: "(name, c) \<in> set cs \<and> fst c = Inl x"
  have "fst (run_checks cs []) = map (\<lambda>(name, c). (name, recorded c)) cs"
    using run_checks_results [OF d, of "[]"] by simp
  then show "map_of (fst (run_checks cs [])) name = Some (PBool False)"
    using recorded_lookup [OF d, of name c] h by (simp add: recorded_def)
next
  fix name c x
  assume "distinct (map fst cs)" and h: "(name, c) \<in> set cs \<and> fst c = Inl x"
  then show "Error (''Error checking '' @ name @ '': '' @ str_exception x)
           \<in> set (snd (run_checks cs []))"
    using run_checks_lines [of name c cs "[]"] by simp
next
  show "results_of (main e files) = map (\<lambda>(name, c). (name, recorded c)) (checks e)"
    by (rule main_results)
next
  fix name c x
  assume h: "(name, c) \<in> set (checks e) \<and> fst c = Inl x"
  show "map_of (results_of (main e files)) name = Some (PBool False)"
    using recorded_lookup [OF distinct_check_names, of name c e] h
    by (simp add: main_results recorded_def)
next
  fix name c x
  assume h: "(name, c) \<in> set (checks e) \<and> fst c = Inl x"
  then have "Error (''Error checking '' @ name @ '': '' @ str_exception x)
           \<in> set (snd (run_checks (checks e) []))"
    using run_checks_lines [of name c "checks e" "[]"] by simp
  then show "Error (''Error checking '' @ name @ '': '' @ str_exception x)
           \<in> set (printed (main e files))"
    by (simp add: main_printed)
next
  show "\<exists>before between after.
      printed (main e files) =
        before @ concat (map reported (checks e)) @ between @
        summary (results_of (main e files)) @ after"
    unfolding main_printed run_checks_trace by (metis append.assoc)
qed

text \<open>
  C7 on two checks of which the first raises, and on \<open>main\<close> where the OBS
  configuration directory cannot be read: \<open>OBS Configuration\<close> is recorded as \<open>False\<close>,
  its error line is printed, and all five checks are in the results.
\<close>

theorem check_exceptions_recorded_witness:
  "run_checks two_checks [] =
     ([(''First'', PBool False), (''Second'', PBool True)],
      [Plain ''Checking: First'', Info ''started'', Error ''Error checking First: boom'',
       Plain ''Checking: Second'', Success ''fine'']) \<and>
   map fst (results_of (main denied_env Map.empty)) =
     [''OBS Installation'', ''Hardware Encoding'', ''Dev Server'', ''OBS Configuration'',
      ''System Resources''] \<and>
   map_of (results_of (main denied_env Map.empty)) ''OBS Configuration'' = Some (PBool False) \<and>
   Error ''Error checking OBS Configuration: [Errno 13] Permission denied''
     \<in> set (printed (main denied_env Map.empty))"
proof -
  note general = check_exceptions_recorded [THEN conjunct1, rule_format, THEN conjunct1]
  note in_main = check_exceptions_recorded [THEN conjunct2]
  have d: "distinct (map fst two_checks)" by (simp add: two_checks_def)
  have a: "run_checks two_checks [] =
     ([(''First'', PBool False), (''Second'', PBool True)],
      [Plain ''Checking: First'', Info ''started'', Error ''Error checking First: boom'',
       Plain ''Checking: Second'', Success ''fine''])"
    using general [of two_checks, OF d]
    by (simp add: two_checks_def recorded_def reported_def)
  have raised: "fst (check_obs_config denied_env) =
      Inl (OtherException ''[Errno 13] Permission denied'')"
    by (simp add: check_obs_config_def denied_env_def)
  have member: "(''OBS Configuration'', check_obs_config denied_env) \<in> set (checks denied_env)"
    by (simp add: checks_def)
  have b: "map fst (results_of (main denied_env Map.empty)) =
     [''OBS Installation'', ''Hardware Encoding'', ''Dev Server'', ''OBS Configuration'',
      ''System Resources'']"
    using in_main [of denied_env Map.empty, THEN conjunct1] by (simp add: checks_def)
  have c: "map_of (results_of (main denied_env Map.empty)) ''OBS Configuration'' = Some (PBool False) \<and>
     Error (''Error checking '' @ ''OBS Configuration'' @ '': '' @
            str_exception (OtherException ''[Errno 13] Permission denied''))
       \<in> set (printed (main denied_env Map.empty))"
    using in_main [of denied_env Map.empty, THEN conjunct2, THEN conjunct1, rule_format,
        OF conjI [OF member raised]] .
  from a b c show ?thesis by simp
qed




end
